theory Spec2Isabelle
  imports Complex_Main "HOL-Library.AList" "HOL-Library.Extended_Nat"
begin

section \<open>Data model of the movie recommendation system\<close>

text \<open>
  \<^verbatim>\<open>Movie\<close> and \<^verbatim>\<open>User\<close> are plain classes without \<^verbatim>\<open>__eq__\<close> or \<^verbatim>\<open>__hash__\<close>, so Python
  compares and hashes their instances by object identity. Movies are put into sets by the
  recommender, so a movie carries its object identity \<open>movie_ref\<close> next to the two fields
  that \<^verbatim>\<open>__init__\<close> stores; two separately constructed movies differ in \<open>movie_ref\<close>. Users
  are only ever asked for their id.
\<close>

record Movie =
  movie_ref :: nat
  movie_id :: int
  movie_title :: string

record User =
  user_id :: int
  user_name :: string

datatype MovieRating = NOT_RATED | ONE | TWO | THREE | FOUR | FIVE

text \<open>The \<^verbatim>\<open>.value\<close> of an enum member.\<close>

fun rating_value :: "MovieRating \<Rightarrow> int" where
  "rating_value NOT_RATED = 0"
| "rating_value ONE = 1"
| "rating_value TWO = 2"
| "rating_value THREE = 3"
| "rating_value FOUR = 4"
| "rating_value FIVE = 5"

datatype error = KeyError | ZeroDivisionError

text \<open>
  The dictionaries of \<^verbatim>\<open>RatingRegister\<close> are association lists in insertion order: a new key
  goes to the end, a stored key keeps its place when its value is overwritten.
\<close>

record RatingRegister =
  user_movies :: "(int \<times> Movie list) list"
  movie_ratings :: "(int \<times> (int \<times> MovieRating) list) list"
  movies :: "Movie list"
  users :: "User list"

definition RatingRegister_init :: RatingRegister where
  "RatingRegister_init = \<lparr>user_movies = [], movie_ratings = [], movies = [], users = []\<rparr>"

section \<open>RatingRegister\<close>

text \<open>
  \<^verbatim>\<open>add_rating\<close>, statement by statement. The two guarded blocks make sure both keys are
  present, so the append to the user's list and the store into the movie's dictionary
  (\<open>AList.map_entry\<close>: change the value under a stored key) find their entries.
\<close>

definition add_rating :: "User \<Rightarrow> Movie \<Rightarrow> MovieRating \<Rightarrow> RatingRegister \<Rightarrow> RatingRegister" where
  "add_rating user movie rating s =
    (let s1 = (if map_of (movie_ratings s) (movie_id movie) = None
               then s\<lparr>movie_ratings := movie_ratings s @ [(movie_id movie, [])],
                      movies := movies s @ [movie]\<rparr>
               else s);
         s2 = (if map_of (user_movies s1) (user_id user) = None
               then s1\<lparr>user_movies := user_movies s1 @ [(user_id user, [])],
                       users := users s1 @ [user]\<rparr>
               else s1);
         s3 = s2\<lparr>user_movies :=
                   AList.map_entry (user_id user) (\<lambda>ms. ms @ [movie]) (user_movies s2)\<rparr>
     in s3\<lparr>movie_ratings :=
              AList.map_entry (movie_id movie) (AList.update (user_id user) rating)
                (movie_ratings s3)\<rparr>)"

text \<open>
  \<^verbatim>\<open>sum(...) / len(ratings)\<close> is Python's true division, which raises on an empty dictionary.
  The quotient is kept exact (a rational) here; Python rounds it to the nearest double.
\<close>

definition get_average_rating :: "RatingRegister \<Rightarrow> Movie \<Rightarrow> error + rat" where
  "get_average_rating s movie =
    (case map_of (movie_ratings s) (movie_id movie) of
       None \<Rightarrow> Inr (of_int (rating_value NOT_RATED))
     | Some d \<Rightarrow>
         (let ratings = map snd d
          in if length ratings = 0 then Inl ZeroDivisionError
             else Inr (of_int (sum_list (map rating_value ratings)) / of_nat (length ratings))))"

definition get_users :: "RatingRegister \<Rightarrow> User list" where
  "get_users s = users s"

definition get_movies :: "RatingRegister \<Rightarrow> Movie list" where
  "get_movies s = movies s"

definition get_user_movies :: "RatingRegister \<Rightarrow> User \<Rightarrow> Movie list" where
  "get_user_movies s user =
    (case map_of (user_movies s) (user_id user) of None \<Rightarrow> [] | Some ms \<Rightarrow> ms)"

definition get_movie_ratings :: "RatingRegister \<Rightarrow> Movie \<Rightarrow> (int \<times> MovieRating) list" where
  "get_movie_ratings s movie =
    (case map_of (movie_ratings s) (movie_id movie) of None \<Rightarrow> [] | Some d \<Rightarrow> d)"

text \<open>A sequence of \<^verbatim>\<open>add_rating\<close> calls, applied from left to right.\<close>

fun add_ratings :: "(User \<times> Movie \<times> MovieRating) list \<Rightarrow> RatingRegister \<Rightarrow> RatingRegister" where
  "add_ratings [] s = s"
| "add_ratings ((user, movie, rating) # calls) s = add_ratings calls (add_rating user movie rating s)"

section \<open>MovieRecommendation\<close>

text \<open>
  Python's \<^verbatim>\<open>max(xs, key=f, default=None)\<close>: the key of every element is computed once, in
  order, and an element replaces the running maximum only when its key is strictly greater.
\<close>

fun max_key_loop :: "('a \<Rightarrow> error + rat) \<Rightarrow> 'a \<Rightarrow> rat \<Rightarrow> 'a list \<Rightarrow> error + 'a" where
  "max_key_loop key maxitem maxval [] = Inr maxitem"
| "max_key_loop key maxitem maxval (item # rest) =
    (case key item of
       Inl e \<Rightarrow> Inl e
     | Inr val \<Rightarrow>
         if maxval < val then max_key_loop key item val rest
         else max_key_loop key maxitem maxval rest)"

fun max_key_default :: "('a \<Rightarrow> error + rat) \<Rightarrow> 'a list \<Rightarrow> error + 'a option" where
  "max_key_default key [] = Inr None"
| "max_key_default key (item # rest) =
    (case key item of
       Inl e \<Rightarrow> Inl e
     | Inr val \<Rightarrow>
         (case max_key_loop key item val rest of Inl e \<Rightarrow> Inl e | Inr m \<Rightarrow> Inr (Some m)))"

definition recommend_for_new_user :: "RatingRegister \<Rightarrow> error + Movie option" where
  "recommend_for_new_user s = max_key_default (get_average_rating s) (get_movies s)"

text \<open>
  \<^verbatim>\<open>set(a) & set(b)\<close> as a duplicate-free list; the order in which Python walks the set
  does not matter to the sum taken over it.
\<close>

definition common_movies :: "RatingRegister \<Rightarrow> User \<Rightarrow> User \<Rightarrow> Movie list" where
  "common_movies s user1 user2 =
    remdups (filter (\<lambda>m. m \<in> set (get_user_movies s user2)) (get_user_movies s user1))"

fun sum_abs_diff :: "RatingRegister \<Rightarrow> User \<Rightarrow> User \<Rightarrow> Movie list \<Rightarrow> error + int" where
  "sum_abs_diff s user1 user2 [] = Inr 0"
| "sum_abs_diff s user1 user2 (movie # rest) =
    (case map_of (get_movie_ratings s movie) (user_id user1) of
       None \<Rightarrow> Inl KeyError
     | Some r1 \<Rightarrow>
        (case map_of (get_movie_ratings s movie) (user_id user2) of
           None \<Rightarrow> Inl KeyError
         | Some r2 \<Rightarrow>
            (case sum_abs_diff s user1 user2 rest of
               Inl e \<Rightarrow> Inl e
             | Inr diff_sum \<Rightarrow> Inr (\<bar>rating_value r1 - rating_value r2\<bar> + diff_sum))))"

text \<open>
  \<^verbatim>\<open>sum(...) or float("inf")\<close>: the sum when it is truthy, that is non-zero, and infinity
  otherwise. The score is an extended natural number, \<open>\<infinity>\<close> standing for \<^verbatim>\<open>float("inf")\<close>.
\<close>

definition calculate_similarity :: "RatingRegister \<Rightarrow> User \<Rightarrow> User \<Rightarrow> error + enat" where
  "calculate_similarity s user1 user2 =
    (case sum_abs_diff s user1 user2 (common_movies s user1 user2) of
       Inl e \<Rightarrow> Inl e
     | Inr diff_sum \<Rightarrow> Inr (if diff_sum = 0 then \<infinity> else enat (nat diff_sum)))"

text \<open>
  The rating a reviewer gave a movie as the search for an unwatched movie reads it:
  \<^verbatim>\<open>get_movie_ratings(movie).get(reviewer.get_id(), MovieRating.NOT_RATED).value\<close>.
\<close>

definition reviewer_rating :: "RatingRegister \<Rightarrow> User \<Rightarrow> Movie \<Rightarrow> int" where
  "reviewer_rating s reviewer movie =
    rating_value (case map_of (get_movie_ratings s movie) (user_id reviewer) of
                    None \<Rightarrow> NOT_RATED | Some r \<Rightarrow> r)"

fun find_unwatched_loop ::
  "RatingRegister \<Rightarrow> User \<Rightarrow> User \<Rightarrow> Movie option \<Rightarrow> int \<Rightarrow> Movie list \<Rightarrow> error + Movie option" where
  "find_unwatched_loop s user reviewer best_movie best_rating [] = Inr best_movie"
| "find_unwatched_loop s user reviewer best_movie best_rating (movie # rest) =
    (if movie \<notin> set (get_user_movies s user) \<and> reviewer_rating s reviewer movie > best_rating
     then (case map_of (get_movie_ratings s movie) (user_id reviewer) of
             None \<Rightarrow> Inl KeyError
           | Some r \<Rightarrow> find_unwatched_loop s user reviewer (Some movie) (rating_value r) rest)
     else find_unwatched_loop s user reviewer best_movie best_rating rest)"

definition find_unwatched_movie :: "RatingRegister \<Rightarrow> User \<Rightarrow> User \<Rightarrow> error + Movie option" where
  "find_unwatched_movie s user reviewer =
    find_unwatched_loop s user reviewer None 0 (get_user_movies s reviewer)"

fun existing_user_loop ::
  "RatingRegister \<Rightarrow> User \<Rightarrow> Movie option \<Rightarrow> enat \<Rightarrow> User list \<Rightarrow> error + Movie option" where
  "existing_user_loop s user best_movie lowest_score [] = Inr best_movie"
| "existing_user_loop s user best_movie lowest_score (reviewer # rest) =
    (if user_id reviewer = user_id user
     then existing_user_loop s user best_movie lowest_score rest
     else (case calculate_similarity s user reviewer of
             Inl e \<Rightarrow> Inl e
           | Inr score \<Rightarrow>
               if score < lowest_score
               then (case find_unwatched_movie s user reviewer of
                       Inl e \<Rightarrow> Inl e
                     | Inr m \<Rightarrow> existing_user_loop s user m score rest)
               else existing_user_loop s user best_movie lowest_score rest))"

definition recommend_for_existing_user :: "RatingRegister \<Rightarrow> User \<Rightarrow> error + string option" where
  "recommend_for_existing_user s user =
    (case existing_user_loop s user None \<infinity> (get_users s) of
       Inl e \<Rightarrow> Inl e
     | Inr None \<Rightarrow> Inr None
     | Inr (Some best_movie) \<Rightarrow> Inr (Some (movie_title best_movie)))"

text \<open>
  What \<^verbatim>\<open>recommend_movie\<close> hands back is a Python value: \<^verbatim>\<open>None\<close>, a string, or whatever
  object the branch taken returned.
\<close>

datatype pyval = PyNone | PyStr string | PyMovie Movie

definition recommend_movie :: "RatingRegister \<Rightarrow> User \<Rightarrow> error + pyval" where
  "recommend_movie s user =
    (if get_user_movies s user = []
     then (case recommend_for_new_user s of
             Inl e \<Rightarrow> Inl e
           | Inr None \<Rightarrow> Inr PyNone
           | Inr (Some m) \<Rightarrow> Inr (PyMovie m))
     else (case recommend_for_existing_user s user of
             Inl e \<Rightarrow> Inl e
           | Inr None \<Rightarrow> Inr PyNone
           | Inr (Some t) \<Rightarrow> Inr (PyStr t)))"

section \<open>The demonstration data\<close>

definition alice :: User where "alice = \<lparr>user_id = 1, user_name = ''Alice''\<rparr>"
definition bob :: User where "bob = \<lparr>user_id = 2, user_name = ''Bob''\<rparr>"
definition charlie :: User where "charlie = \<lparr>user_id = 3, user_name = ''Charlie''\<rparr>"

definition inception :: Movie where
  "inception = \<lparr>movie_ref = 1, movie_id = 1, movie_title = ''Inception''\<rparr>"
definition titanic :: Movie where
  "titanic = \<lparr>movie_ref = 2, movie_id = 2, movie_title = ''Titanic''\<rparr>"
definition the_matrix :: Movie where
  "the_matrix = \<lparr>movie_ref = 3, movie_id = 3, movie_title = ''The Matrix''\<rparr>"

definition demo_calls :: "(User \<times> Movie \<times> MovieRating) list" where
  "demo_calls = [(alice, inception, FIVE), (alice, titanic, TWO),
                 (bob, titanic, THREE), (bob, the_matrix, FOUR)]"

definition demo_ratings :: RatingRegister where
  "demo_ratings = add_ratings demo_calls RatingRegister_init"

text \<open>Two users who gave the one movie they share the same rating.\<close>

definition same_taste :: RatingRegister where
  "same_taste =
    add_ratings [(alice, titanic, THREE), (bob, titanic, THREE)] RatingRegister_init"

text \<open>Two users with no movie in common.\<close>

definition strangers :: RatingRegister where
  "strangers =
    add_ratings [(alice, inception, FIVE), (bob, the_matrix, FOUR)] RatingRegister_init"

section \<open>Properties of the store, stated over its queries\<close>

text \<open>
  A movie is identified by its id and a user by theirs, as the dictionaries of the store
  key them. The pair (user, movie) is in the movie-to-ratings map when the movie's
  dictionary has the user's id as a key, and in the user-to-movies index when the user's
  list holds a movie of that id.
\<close>

definition consistent :: "RatingRegister \<Rightarrow> bool" where
  "consistent s \<longleftrightarrow>
    (\<forall>user movie.
       (map_of (get_movie_ratings s movie) (user_id user) \<noteq> None) =
       (\<exists>m \<in> set (get_user_movies s user). movie_id m = movie_id movie))"

definition ratings_nonempty :: "RatingRegister \<Rightarrow> bool" where
  "ratings_nonempty s \<longleftrightarrow> (\<forall>mid d. map_of (movie_ratings s) mid = Some d \<longrightarrow> d \<noteq> [])"

definition keys_distinct :: "RatingRegister \<Rightarrow> bool" where
  "keys_distinct s \<longleftrightarrow> (\<forall>mid d. map_of (movie_ratings s) mid = Some d \<longrightarrow> distinct (map fst d))"

text \<open>
  The history of a store is the list of \<^verbatim>\<open>add_rating\<close> calls that built it. The rating of a
  movie by a user that counts is the one of the last such call; the raters of a movie are
  the users with at least one call for it, each listed once.
\<close>

fun last_rating :: "(User \<times> Movie \<times> MovieRating) list \<Rightarrow> int \<Rightarrow> int \<Rightarrow> MovieRating option" where
  "last_rating [] mid uid = None"
| "last_rating ((user, movie, rating) # calls) mid uid =
    (case last_rating calls mid uid of
       Some r \<Rightarrow> Some r
     | None \<Rightarrow> if movie_id movie = mid \<and> user_id user = uid then Some rating else None)"

definition raters :: "(User \<times> Movie \<times> MovieRating) list \<Rightarrow> int \<Rightarrow> int list" where
  "raters calls mid =
    remdups (map (\<lambda>(user, movie, rating). user_id user)
                 (filter (\<lambda>(user, movie, rating). movie_id movie = mid) calls))"

definition mean_of_last_ratings :: "(User \<times> Movie \<times> MovieRating) list \<Rightarrow> int \<Rightarrow> rat" where
  "mean_of_last_ratings calls mid =
    of_int (sum_list (map (\<lambda>uid. case last_rating calls mid uid of
                                    None \<Rightarrow> 0 | Some r \<Rightarrow> rating_value r)
                          (raters calls mid)))
    / of_nat (length (raters calls mid))"

text \<open>
  The average of a movie as a number: the value \<^verbatim>\<open>get_average_rating\<close> returns when it returns.
\<close>

definition average :: "RatingRegister \<Rightarrow> Movie \<Rightarrow> rat" where
  "average s movie = (case get_average_rating s movie of Inl e \<Rightarrow> 0 | Inr a \<Rightarrow> a)"

section \<open>The worked example\<close>

text \<open>
  Claim C3. With Alice rating Inception 5 and Titanic 2, and Bob rating Titanic 3 and
  The Matrix 4, in that order, the recommendation for Alice is the string "The Matrix"
  and the recommendation for Bob is the string "Inception".
\<close>

theorem demo_alice_bob:
  "recommend_movie demo_ratings alice = Inr (PyStr ''The Matrix'') \<and>
   recommend_movie demo_ratings bob = Inr (PyStr ''Inception'')"
  by code_simp

text \<open>
  Claim C2. The claim says that \<^verbatim>\<open>recommend_movie\<close> returns \<^verbatim>\<open>None\<close> or a title string, and
  the string "Inception" for Charlie, who has no ratings. The cold-start branch hands back
  what \<^verbatim>\<open>max\<close> returns, which is the \<^verbatim>\<open>Movie\<close> object itself: for Charlie the result is the
  Inception object and not its title.
\<close>

theorem demo_charlie_gets_movie_object:
  "recommend_movie demo_ratings charlie = Inr (PyMovie inception) \<and>
   recommend_movie demo_ratings charlie \<noteq> Inr (PyStr ''Inception'')"
  by code_simp

text \<open>
  Claim C1. The claim says that the dissimilarity score is the sum of the absolute rating
  differences over the shared movies, and infinite exactly when no movie is shared. Alice
  and Bob of \<open>same_taste\<close> share Titanic and rate it alike, so the sum is 0; the score the
  code computes for them is infinite.
\<close>

theorem same_taste_score_infinite:
  "common_movies same_taste alice bob = [titanic] \<and>
   sum_abs_diff same_taste alice bob (common_movies same_taste alice bob) = Inr 0 \<and>
   calculate_similarity same_taste alice bob = Inr \<infinity>"
  by code_simp

section \<open>What one call of \<open>add_rating\<close> does to the queries\<close>

lemma map_of_user_movies_add_rating:
  "map_of (user_movies (add_rating u m r s)) uid =
    (if uid = user_id u then Some (get_user_movies s u @ [m]) else map_of (user_movies s) uid)"
  by (auto simp: add_rating_def Let_def get_user_movies_def AList.map_of_map_entry map_add_def
      split: option.splits)

lemma map_of_movie_ratings_add_rating:
  "map_of (movie_ratings (add_rating u m r s)) mid =
    (if mid = movie_id m then Some (AList.update (user_id u) r (get_movie_ratings s m))
     else map_of (movie_ratings s) mid)"
  by (auto simp: add_rating_def Let_def get_movie_ratings_def AList.map_of_map_entry map_add_def
      split: option.splits)

lemma get_user_movies_add_rating:
  "get_user_movies (add_rating u m r s) u' =
    (if user_id u' = user_id u then get_user_movies s u @ [m] else get_user_movies s u')"
  by (simp add: get_user_movies_def [of "add_rating u m r s"] map_of_user_movies_add_rating)
     (simp add: get_user_movies_def)

lemma get_movie_ratings_add_rating:
  "get_movie_ratings (add_rating u m r s) m' =
    (if movie_id m' = movie_id m then AList.update (user_id u) r (get_movie_ratings s m)
     else get_movie_ratings s m')"
  by (simp add: get_movie_ratings_def [of "add_rating u m r s"] map_of_movie_ratings_add_rating)
     (simp add: get_movie_ratings_def)

lemma movies_add_rating:
  "movies (add_rating u m r s) =
    (if map_of (movie_ratings s) (movie_id m) = None then movies s @ [m] else movies s)"
  by (simp add: add_rating_def Let_def)

lemma users_add_rating:
  "users (add_rating u m r s) =
    (if map_of (user_movies s) (user_id u) = None then users s @ [u] else users s)"
  by (simp add: add_rating_def Let_def)

text \<open>
  Claim C8. Rating the same movie twice as the same user, from any store: the movie's
  dictionary holds the second rating under the user's id, and the user's movie sequence has
  grown by two copies of the movie, so the movie occurs in it at least twice.
\<close>

theorem add_rating_twice:
  "map_of (get_movie_ratings (add_rating user movie r2 (add_rating user movie r1 s)) movie)
      (user_id user) = Some r2 \<and>
   get_user_movies (add_rating user movie r2 (add_rating user movie r1 s)) user =
      get_user_movies s user @ [movie, movie] \<and>
   2 \<le> count_list (get_user_movies (add_rating user movie r2 (add_rating user movie r1 s)) user) movie"
  by (simp add: get_movie_ratings_add_rating get_user_movies_add_rating AList.update_conv')

section \<open>Invariants of the reachable stores\<close>

lemma consistent_init: "consistent RatingRegister_init"
  by (simp add: consistent_def RatingRegister_init_def get_movie_ratings_def get_user_movies_def)

lemma consistent_add_rating:
  assumes "consistent s"
  shows "consistent (add_rating u m r s)"
  unfolding consistent_def
proof (intro allI)
  fix user movie
  have same_user: "get_user_movies s user = get_user_movies s u" if "user_id user = user_id u"
    using that by (simp add: get_user_movies_def)
  have same_movie: "get_movie_ratings s movie = get_movie_ratings s m" if "movie_id movie = movie_id m"
    using that by (simp add: get_movie_ratings_def)
  from assms have old:
    "(map_of (get_movie_ratings s movie) (user_id user) \<noteq> None) =
       (\<exists>x \<in> set (get_user_movies s user). movie_id x = movie_id movie)"
    by (simp add: consistent_def)
  show "(map_of (get_movie_ratings (add_rating u m r s) movie) (user_id user) \<noteq> None) =
       (\<exists>x \<in> set (get_user_movies (add_rating u m r s) user). movie_id x = movie_id movie)"
    using old same_user same_movie
    by (auto simp: get_movie_ratings_add_rating get_user_movies_add_rating AList.update_conv')
qed

lemma consistent_add_ratings: "consistent s \<Longrightarrow> consistent (add_ratings calls s)"
  by (induction calls arbitrary: s) (auto simp: consistent_add_rating)

text \<open>
  Claim C9. In every store built from the empty one by \<^verbatim>\<open>add_rating\<close> calls, the user's id
  is a key of the movie's rating dictionary exactly when the user's movie list holds that
  movie; and one more \<^verbatim>\<open>add_rating\<close> keeps it so.
\<close>

theorem store_consistent:
  "consistent (add_ratings calls RatingRegister_init) \<and>
   (consistent s \<longrightarrow> consistent (add_rating user movie rating s))"
  by (simp add: consistent_add_ratings consistent_init consistent_add_rating)

theorem store_consistent_witness:
  "consistent demo_ratings \<and> consistent (add_rating charlie inception FOUR RatingRegister_init)"
  using store_consistent [of demo_calls RatingRegister_init charlie inception FOUR] consistent_init
  by (simp add: demo_ratings_def)

lemma ratings_nonempty_init: "ratings_nonempty RatingRegister_init"
  by (simp add: ratings_nonempty_def RatingRegister_init_def)

lemma ratings_nonempty_add_rating:
  "ratings_nonempty s \<Longrightarrow> ratings_nonempty (add_rating u m r s)"
  by (auto simp: ratings_nonempty_def map_of_movie_ratings_add_rating split: if_splits)

lemma ratings_nonempty_add_ratings:
  "ratings_nonempty s \<Longrightarrow> ratings_nonempty (add_ratings calls s)"
  by (induction calls arbitrary: s) (auto simp: ratings_nonempty_add_rating)

lemma average_defined:
  "ratings_nonempty s \<Longrightarrow> \<exists>a. get_average_rating s movie = Inr a"
  by (auto simp: ratings_nonempty_def get_average_rating_def Let_def split: option.splits)

text \<open>
  Claim C10. In every store built from the empty one by \<^verbatim>\<open>add_rating\<close> calls, every rating
  dictionary that is stored under a movie id is non-empty, so \<^verbatim>\<open>get_average_rating\<close> never
  divides by zero: it returns a number for every movie. One more \<^verbatim>\<open>add_rating\<close> keeps the
  dictionaries non-empty.
\<close>

theorem ratings_never_empty:
  "ratings_nonempty (add_ratings calls RatingRegister_init) \<and>
   (\<exists>a. get_average_rating (add_ratings calls RatingRegister_init) movie = Inr a) \<and>
   (ratings_nonempty s \<longrightarrow> ratings_nonempty (add_rating user movie2 rating s))"
  by (simp add: ratings_nonempty_add_ratings ratings_nonempty_init average_defined
      ratings_nonempty_add_rating)

theorem ratings_never_empty_witness:
  "ratings_nonempty demo_ratings \<and> get_average_rating demo_ratings titanic = Inr (5 / 2) \<and>
   ratings_nonempty (add_rating charlie inception FOUR RatingRegister_init)"
proof -
  have "get_average_rating demo_ratings titanic = Inr (5 / 2)"
    by code_simp
  then show ?thesis
    using ratings_never_empty [of demo_calls titanic RatingRegister_init charlie inception FOUR]
      ratings_nonempty_init
    by (simp add: demo_ratings_def)
qed

section \<open>The average rating\<close>

lemma keys_distinct_init: "keys_distinct RatingRegister_init"
  by (simp add: keys_distinct_def RatingRegister_init_def)

lemma keys_distinct_add_rating:
  assumes "keys_distinct s"
  shows "keys_distinct (add_rating u m r s)"
proof -
  have "distinct (map fst (get_movie_ratings s m))"
    using assms by (auto simp: keys_distinct_def get_movie_ratings_def split: option.splits)
  then have "distinct (map fst (AList.update (user_id u) r (get_movie_ratings s m)))"
    by (rule AList.distinct_update)
  with assms show ?thesis
    by (auto simp: keys_distinct_def map_of_movie_ratings_add_rating split: if_splits)
qed

lemma keys_distinct_add_ratings: "keys_distinct s \<Longrightarrow> keys_distinct (add_ratings calls s)"
  by (induction calls arbitrary: s) (auto simp: keys_distinct_add_rating)

lemma map_of_ratings_add_ratings:
  "map_of (get_movie_ratings (add_ratings calls s) movie) uid =
    (case last_rating calls (movie_id movie) uid of
       Some r \<Rightarrow> Some r
     | None \<Rightarrow> map_of (get_movie_ratings s movie) uid)"
proof (induction calls arbitrary: s)
  case Nil
  show ?case by simp
next
  case (Cons c calls)
  obtain u m r where c: "c = (u, m, r)" by (cases c)
  have same_movie: "get_movie_ratings s movie = get_movie_ratings s m" if "movie_id movie = movie_id m"
    using that by (simp add: get_movie_ratings_def)
  show ?case
    using same_movie
    by (auto simp: c Cons.IH get_movie_ratings_add_rating AList.update_conv' split: option.splits)
qed

lemma movie_known_add_ratings:
  "(map_of (movie_ratings (add_ratings calls s)) mid = None) =
    (map_of (movie_ratings s) mid = None \<and> (\<forall>(u, m, r) \<in> set calls. movie_id m \<noteq> mid))"
proof (induction calls arbitrary: s)
  case Nil
  show ?case by simp
next
  case (Cons c calls)
  obtain u m r where c: "c = (u, m, r)" by (cases c)
  show ?case
    by (auto simp: c Cons.IH map_of_movie_ratings_add_rating)
qed

lemma set_raters: "set (raters calls mid) = {uid. last_rating calls mid uid \<noteq> None}"
proof (induction calls)
  case Nil
  show ?case by (simp add: raters_def)
next
  case (Cons c calls)
  obtain u m r where c: "c = (u, m, r)" by (cases c)
  have "set (raters (c # calls) mid) =
      (if movie_id m = mid then insert (user_id u) (set (raters calls mid)) else set (raters calls mid))"
    by (simp add: raters_def c)
  then show ?case
    using Cons.IH by (auto simp: c split: option.splits)
qed

lemma raters_Nil_iff: "(raters calls mid = []) = (\<forall>(u, m, r) \<in> set calls. movie_id m \<noteq> mid)"
  by (auto simp: raters_def filter_empty_conv)

lemma sum_list_values:
  "distinct (map fst d) \<Longrightarrow>
    sum_list (map f (map snd d)) = (\<Sum>k \<in> fst ` set d. f (the (map_of d k)))"
proof (induction d)
  case Nil
  show ?case by simp
next
  case (Cons p d)
  obtain k v where p: "p = (k, v)" by (cases p)
  from Cons.prems have notin: "k \<notin> fst ` set d" and dist: "distinct (map fst d)"
    by (auto simp: p)
  have "(\<Sum>k' \<in> fst ` set d. f (the (map_of (p # d) k'))) = (\<Sum>k' \<in> fst ` set d. f (the (map_of d k')))"
    using notin by (intro sum.cong) (auto simp: p)
  then show ?case
    using notin Cons.IH [OF dist] by (simp add: p)
qed

lemma get_movie_ratings_init: "get_movie_ratings RatingRegister_init movie = []"
  by (simp add: get_movie_ratings_def RatingRegister_init_def)

lemma average_of_history:
  assumes known: "raters calls (movie_id movie) \<noteq> []"
  shows "get_average_rating (add_ratings calls RatingRegister_init) movie =
    Inr (mean_of_last_ratings calls (movie_id movie))"
proof -
  define s where "s = add_ratings calls RatingRegister_init"
  define d where "d = get_movie_ratings s movie"
  define us where "us = raters calls (movie_id movie)"
  define g where "g = (\<lambda>uid. case last_rating calls (movie_id movie) uid of
                               None \<Rightarrow> 0 | Some r \<Rightarrow> rating_value r)"
  from known have "map_of (movie_ratings s) (movie_id movie) \<noteq> None"
    by (simp add: s_def movie_known_add_ratings raters_Nil_iff)
  then have stored: "map_of (movie_ratings s) (movie_id movie) = Some d"
    by (auto simp: d_def get_movie_ratings_def)
  have "keys_distinct s"
    unfolding s_def by (rule keys_distinct_add_ratings [OF keys_distinct_init])
  with stored have dist: "distinct (map fst d)"
    by (simp add: keys_distinct_def)
  have lookup: "map_of d uid = last_rating calls (movie_id movie) uid" for uid
    unfolding d_def s_def
    by (simp add: map_of_ratings_add_ratings get_movie_ratings_init split: option.splits)
  have keys: "fst ` set d = set us"
    using lookup by (simp add: us_def set_raters dom_map_of_conv_image_fst [symmetric] dom_def)
  have "distinct us"
    by (simp add: us_def raters_def)
  then have len_us: "length us = card (set us)"
    by (simp add: distinct_card)
  from dist have "length d = card (fst ` set d)"
    using distinct_card [of "map fst d"] by simp
  with keys len_us have len: "length d = length us"
    by simp
  have "sum_list (map rating_value (map snd d)) = (\<Sum>k \<in> set us. rating_value (the (map_of d k)))"
    using sum_list_values [OF dist, of rating_value] keys by simp
  also have "\<dots> = (\<Sum>k \<in> set us. g k)"
  proof (rule sum.cong [OF refl])
    fix k
    assume "k \<in> set us"
    then have "last_rating calls (movie_id movie) k \<noteq> None"
      by (simp add: us_def set_raters)
    then show "rating_value (the (map_of d k)) = g k"
      by (auto simp: lookup g_def)
  qed
  also have "\<dots> = sum_list (map g us)"
    using \<open>distinct us\<close> by (simp add: sum_list_distinct_conv_sum_set)
  finally have total: "sum_list (map rating_value (map snd d)) = sum_list (map g us)" .
  from known len have "d \<noteq> []"
    by (auto simp: us_def)
  then have "get_average_rating s movie = Inr (of_int (sum_list (map g us)) / of_nat (length us))"
    using stored total len by (simp add: get_average_rating_def Let_def)
  then show ?thesis
    by (simp add: mean_of_last_ratings_def s_def us_def g_def)
qed

lemma average_of_unknown:
  assumes "raters calls (movie_id movie) = []"
  shows "get_average_rating (add_ratings calls RatingRegister_init) movie = Inr 0"
proof -
  from assms have "map_of (movie_ratings (add_ratings calls RatingRegister_init)) (movie_id movie) = None"
    by (simp add: movie_known_add_ratings raters_Nil_iff RatingRegister_init_def)
  then show ?thesis
    by (simp add: get_average_rating_def)
qed

text \<open>
  Claim C7. For the store built by a list of \<^verbatim>\<open>add_rating\<close> calls and any movie,
  \<^verbatim>\<open>get_average_rating\<close> returns the mean of the ratings of the movie, one per user who
  rated it, each the last one that user wrote; for a movie that no call was about it
  returns 0. It never raises.
\<close>

theorem get_average_rating_mean:
  "get_average_rating (add_ratings calls RatingRegister_init) movie =
     Inr (if raters calls (movie_id movie) = [] then 0
          else mean_of_last_ratings calls (movie_id movie)) \<and>
   ((\<forall>(u, m, r) \<in> set calls. movie_id m \<noteq> movie_id movie) \<longrightarrow>
      get_average_rating (add_ratings calls RatingRegister_init) movie = Inr 0)"
  using average_of_history [of calls movie] average_of_unknown [of calls movie]
  by (auto simp: raters_Nil_iff)

theorem get_average_rating_mean_witness:
  "get_average_rating demo_ratings titanic = Inr (5 / 2) \<and>
   get_average_rating demo_ratings \<lparr>movie_ref = 4, movie_id = 4, movie_title = ''Up''\<rparr> = Inr 0"
proof -
  have known: "raters demo_calls (movie_id titanic) \<noteq> []"
    by code_simp
  have mean: "mean_of_last_ratings demo_calls (movie_id titanic) = 5 / 2"
    by code_simp
  have unknown: "\<forall>(u, m, r) \<in> set demo_calls.
      movie_id m \<noteq> movie_id \<lparr>movie_ref = 4, movie_id = 4, movie_title = ''Up''\<rparr>"
    by code_simp
  have "get_average_rating demo_ratings titanic = Inr (5 / 2)"
    using get_average_rating_mean [of demo_calls titanic] known mean
    by (simp add: demo_ratings_def)
  moreover have
    "get_average_rating demo_ratings \<lparr>movie_ref = 4, movie_id = 4, movie_title = ''Up''\<rparr> = Inr 0"
    using get_average_rating_mean
        [of demo_calls "\<lparr>movie_ref = 4, movie_id = 4, movie_title = ''Up''\<rparr>"] unknown
    unfolding demo_ratings_def by blast
  ultimately show ?thesis
    by simp
qed

section \<open>Recommending for a user with ratings\<close>

text \<open>
  On a consistent store no lookup of \<^verbatim>\<open>_calculate_similarity\<close> misses its key: the score
  is the sum of the absolute differences over the common movies when that sum is not 0,
  and infinite when it is 0, be it for want of a common movie or for equal ratings.
\<close>

lemma sum_abs_diff_defined:
  assumes "\<forall>m \<in> set ms. map_of (get_movie_ratings s m) (user_id u1) \<noteq> None \<and>
             map_of (get_movie_ratings s m) (user_id u2) \<noteq> None"
  shows "sum_abs_diff s u1 u2 ms =
    Inr (\<Sum>m\<leftarrow>ms. \<bar>reviewer_rating s u1 m - reviewer_rating s u2 m\<bar>)"
  using assms by (induction ms) (auto simp: reviewer_rating_def)

lemma calculate_similarity_consistent:
  assumes "consistent s"
  shows "calculate_similarity s u1 u2 =
    Inr (if (\<Sum>m\<leftarrow>common_movies s u1 u2. \<bar>reviewer_rating s u1 m - reviewer_rating s u2 m\<bar>) = 0
         then \<infinity>
         else enat (nat (\<Sum>m\<leftarrow>common_movies s u1 u2.
                           \<bar>reviewer_rating s u1 m - reviewer_rating s u2 m\<bar>)))"
proof -
  have "map_of (get_movie_ratings s m) (user_id u) \<noteq> None" if "m \<in> set (get_user_movies s u)"
    for m u
    using assms that by (auto simp: consistent_def)
  then have "\<forall>m \<in> set (common_movies s u1 u2).
      map_of (get_movie_ratings s m) (user_id u1) \<noteq> None \<and>
      map_of (get_movie_ratings s m) (user_id u2) \<noteq> None"
    by (simp add: common_movies_def)
  then show ?thesis
    by (simp add: calculate_similarity_def sum_abs_diff_defined)
qed

lemma existing_user_loop_all_infinite:
  "(\<forall>r \<in> set rs. user_id r \<noteq> user_id user \<longrightarrow> calculate_similarity s user r = Inr \<infinity>) \<Longrightarrow>
    existing_user_loop s user best_movie lowest_score rs = Inr best_movie"
  by (induction rs) auto

text \<open>
  Claim C5. For a user with at least one rating, when the score of every other known user
  is infinite, no reviewer is ever taken (the test is strictly below the lowest score so
  far, which starts at infinity) and \<^verbatim>\<open>recommend_movie\<close> returns \<^verbatim>\<open>None\<close>.
\<close>

theorem all_infinite_no_recommendation:
  assumes "get_user_movies s user \<noteq> []"
    and "\<forall>r \<in> set (get_users s). user_id r \<noteq> user_id user \<longrightarrow>
           calculate_similarity s user r = Inr \<infinity>"
  shows "recommend_movie s user = Inr PyNone"
  using assms
  by (simp add: recommend_movie_def recommend_for_existing_user_def
      existing_user_loop_all_infinite)

theorem all_infinite_no_recommendation_witness:
  "get_user_movies strangers alice \<noteq> [] \<and> recommend_movie strangers alice = Inr PyNone"
proof -
  have rated: "get_user_movies strangers alice \<noteq> []"
    by code_simp
  have scores: "\<forall>r \<in> set (get_users strangers). user_id r \<noteq> user_id alice \<longrightarrow>
      calculate_similarity strangers alice r = Inr \<infinity>"
    by code_simp
  show ?thesis
    using all_infinite_no_recommendation [OF rated scores] rated by simp
qed

lemma find_unwatched_loop_result:
  assumes "0 \<le> best_rating"
  shows "\<exists>res. find_unwatched_loop s user reviewer best_movie best_rating ms = Inr res \<and>
    ((\<forall>m \<in> set ms. m \<notin> set (get_user_movies s user) \<longrightarrow>
          reviewer_rating s reviewer m \<le> best_rating) \<longrightarrow> res = best_movie) \<and>
    ((\<exists>m \<in> set ms. m \<notin> set (get_user_movies s user) \<and>
          best_rating < reviewer_rating s reviewer m) \<longrightarrow>
      (\<exists>b pre post. res = Some b \<and> ms = pre @ b # post \<and>
            b \<notin> set (get_user_movies s user) \<and> best_rating < reviewer_rating s reviewer b \<and>
            (\<forall>m \<in> set pre. m \<notin> set (get_user_movies s user) \<longrightarrow>
               reviewer_rating s reviewer m < reviewer_rating s reviewer b) \<and>
            (\<forall>m \<in> set post. m \<notin> set (get_user_movies s user) \<longrightarrow>
               reviewer_rating s reviewer m \<le> reviewer_rating s reviewer b)))"
  using assms
proof (induction ms arbitrary: best_movie best_rating)
  case Nil
  show ?case by simp
next
  case (Cons x ms)
  let ?um = "set (get_user_movies s user)"
  let ?rt = "reviewer_rating s reviewer"
  let ?best = "\<lambda>xs lo b pre post. xs = pre @ b # post \<and> b \<notin> ?um \<and> lo < ?rt b \<and>
      (\<forall>m \<in> set pre. m \<notin> ?um \<longrightarrow> ?rt m < ?rt b) \<and>
      (\<forall>m \<in> set post. m \<notin> ?um \<longrightarrow> ?rt m \<le> ?rt b)"
  show ?case
  proof (cases "x \<notin> ?um \<and> best_rating < ?rt x")
    case True
    then have pos: "0 < ?rt x" using Cons.prems by simp
    then obtain r where r: "map_of (get_movie_ratings s x) (user_id reviewer) = Some r"
      by (auto simp: reviewer_rating_def split: option.splits)
    then have rv: "rating_value r = ?rt x"
      by (simp add: reviewer_rating_def)
    have step: "find_unwatched_loop s user reviewer best_movie best_rating (x # ms) =
        find_unwatched_loop s user reviewer (Some x) (?rt x) ms"
      using True r rv by simp
    from pos have "0 \<le> ?rt x" by simp
    from Cons.IH [OF this, of "Some x"] obtain res where
      res: "find_unwatched_loop s user reviewer (Some x) (?rt x) ms = Inr res"
      and keep: "(\<forall>m \<in> set ms. m \<notin> ?um \<longrightarrow> ?rt m \<le> ?rt x) \<longrightarrow> res = Some x"
      and later: "(\<exists>m \<in> set ms. m \<notin> ?um \<and> ?rt x < ?rt m) \<longrightarrow>
          (\<exists>b pre post. res = Some b \<and> ?best ms (?rt x) b pre post)"
      by blast
    have "\<exists>b pre post. res = Some b \<and> ?best (x # ms) best_rating b pre post"
    proof (cases "\<forall>m \<in> set ms. m \<notin> ?um \<longrightarrow> ?rt m \<le> ?rt x")
      case all: True
      with keep have "res = Some x" by simp
      with True all have "res = Some x \<and> ?best (x # ms) best_rating x [] ms"
        by simp
      then show ?thesis by blast
    next
      case False
      then have "\<exists>m \<in> set ms. m \<notin> ?um \<and> ?rt x < ?rt m"
        by (auto simp: not_le)
      with later obtain b pre post where b: "res = Some b" "?best ms (?rt x) b pre post"
        by blast
      with True have "res = Some b \<and> ?best (x # ms) best_rating b (x # pre) post"
        by simp
      then show ?thesis by blast
    qed
    moreover from True have "\<not> (\<forall>m \<in> set (x # ms). m \<notin> ?um \<longrightarrow> ?rt m \<le> best_rating)"
      by auto
    ultimately show ?thesis
      unfolding step res by (intro exI [of _ res]) blast
  next
    case False
    then have step: "find_unwatched_loop s user reviewer best_movie best_rating (x # ms) =
        find_unwatched_loop s user reviewer best_movie best_rating ms"
      by auto
    from False have skip: "x \<notin> ?um \<longrightarrow> ?rt x \<le> best_rating"
      by auto
    from Cons.IH [OF Cons.prems, of best_movie] obtain res where
      res: "find_unwatched_loop s user reviewer best_movie best_rating ms = Inr res"
      and keep: "(\<forall>m \<in> set ms. m \<notin> ?um \<longrightarrow> ?rt m \<le> best_rating) \<longrightarrow> res = best_movie"
      and later: "(\<exists>m \<in> set ms. m \<notin> ?um \<and> best_rating < ?rt m) \<longrightarrow>
          (\<exists>b pre post. res = Some b \<and> ?best ms best_rating b pre post)"
      by blast
    have first: "(\<forall>m \<in> set (x # ms). m \<notin> ?um \<longrightarrow> ?rt m \<le> best_rating) \<longrightarrow> res = best_movie"
      using keep by simp
    have second: "\<exists>b pre post. res = Some b \<and> ?best (x # ms) best_rating b pre post"
      if "\<exists>m \<in> set (x # ms). m \<notin> ?um \<and> best_rating < ?rt m"
    proof -
      from that skip have "\<exists>m \<in> set ms. m \<notin> ?um \<and> best_rating < ?rt m"
        by auto
      with later obtain b pre post where b: "res = Some b" "?best ms best_rating b pre post"
        by blast
      with skip have "res = Some b \<and> ?best (x # ms) best_rating b (x # pre) post"
        by auto
      then show ?thesis by blast
    qed
    show ?thesis
      unfolding step res using first second by (intro exI [of _ res]) blast
  qed
qed

text \<open>
  Claim C6. \<^verbatim>\<open>_find_unwatched_movie\<close> never raises. Its candidates are the movies of the
  reviewer's list that are not among the user's movies. When no candidate has a reviewer's
  rating above 0 the result is \<^verbatim>\<open>None\<close>. Otherwise the result is a candidate \<open>b\<close> with a
  rating above 0, at a place in the reviewer's list such that every candidate before it has
  a strictly lower rating and every candidate after it has a rating that is not higher:
  the first of the highest-rated candidates.
\<close>

theorem find_unwatched_movie_first_best:
  "\<exists>res. find_unwatched_movie s user reviewer = Inr res \<and>
    ((\<forall>m \<in> set (get_user_movies s reviewer). m \<notin> set (get_user_movies s user) \<longrightarrow>
          reviewer_rating s reviewer m \<le> 0) \<longrightarrow> res = None) \<and>
    ((\<exists>m \<in> set (get_user_movies s reviewer). m \<notin> set (get_user_movies s user) \<and>
          0 < reviewer_rating s reviewer m) \<longrightarrow>
      (\<exists>b pre post. res = Some b \<and> get_user_movies s reviewer = pre @ b # post \<and>
            b \<notin> set (get_user_movies s user) \<and> 0 < reviewer_rating s reviewer b \<and>
            (\<forall>m \<in> set pre. m \<notin> set (get_user_movies s user) \<longrightarrow>
               reviewer_rating s reviewer m < reviewer_rating s reviewer b) \<and>
            (\<forall>m \<in> set post. m \<notin> set (get_user_movies s user) \<longrightarrow>
               reviewer_rating s reviewer m \<le> reviewer_rating s reviewer b)))"
  unfolding find_unwatched_movie_def
  by (rule find_unwatched_loop_result) simp

theorem find_unwatched_movie_first_best_witness:
  "\<exists>b pre post. find_unwatched_movie demo_ratings alice bob = Inr (Some b) \<and>
     get_user_movies demo_ratings bob = pre @ b # post \<and>
     b \<notin> set (get_user_movies demo_ratings alice) \<and> 0 < reviewer_rating demo_ratings bob b"
proof -
  have "\<exists>m \<in> set (get_user_movies demo_ratings bob).
      m \<notin> set (get_user_movies demo_ratings alice) \<and> 0 < reviewer_rating demo_ratings bob m"
    by code_simp
  then show ?thesis
    using find_unwatched_movie_first_best [of demo_ratings alice bob] by blast
qed

section \<open>Recommending for a user without ratings\<close>

lemma max_key_loop_result:
  assumes "\<forall>x \<in> set xs. key x = Inr (f x)"
  shows "\<exists>res. max_key_loop key maxitem maxval xs = Inr res \<and>
     ((\<forall>x \<in> set xs. f x \<le> maxval) \<longrightarrow> res = maxitem) \<and>
     ((\<exists>x \<in> set xs. maxval < f x) \<longrightarrow>
        (\<exists>pre post. xs = pre @ res # post \<and> maxval < f res \<and>
           (\<forall>x \<in> set pre. f x < f res) \<and> (\<forall>x \<in> set post. f x \<le> f res)))"
  using assms
proof (induction xs arbitrary: maxitem maxval)
  case Nil
  show ?case by simp
next
  case (Cons x xs)
  let ?best = "\<lambda>ys lo b pre post. ys = pre @ b # post \<and> lo < f b \<and>
      (\<forall>y \<in> set pre. f y < f b) \<and> (\<forall>y \<in> set post. f y \<le> f b)"
  from Cons.prems have kx: "key x = Inr (f x)" and rest: "\<forall>y \<in> set xs. key y = Inr (f y)"
    by simp_all
  show ?case
  proof (cases "maxval < f x")
    case True
    have step: "max_key_loop key maxitem maxval (x # xs) = max_key_loop key x (f x) xs"
      using True kx by simp
    from Cons.IH [OF rest, of x "f x"] obtain res where
      res: "max_key_loop key x (f x) xs = Inr res"
      and keep: "(\<forall>y \<in> set xs. f y \<le> f x) \<longrightarrow> res = x"
      and later: "(\<exists>y \<in> set xs. f x < f y) \<longrightarrow> (\<exists>pre post. ?best xs (f x) res pre post)"
      by blast
    have "\<exists>pre post. ?best (x # xs) maxval res pre post"
    proof (cases "\<forall>y \<in> set xs. f y \<le> f x")
      case all: True
      with keep have "res = x" by simp
      with True all have "?best (x # xs) maxval res [] xs" by simp
      then show ?thesis by blast
    next
      case False
      then have "\<exists>y \<in> set xs. f x < f y" by (auto simp: not_le)
      with later obtain pre post where "?best xs (f x) res pre post" by blast
      with True have "?best (x # xs) maxval res (x # pre) post" by simp
      then show ?thesis by blast
    qed
    moreover from True have "\<not> (\<forall>y \<in> set (x # xs). f y \<le> maxval)" by auto
    ultimately show ?thesis
      unfolding step res by (intro exI [of _ res]) blast
  next
    case False
    then have skip: "f x \<le> maxval" by simp
    have step: "max_key_loop key maxitem maxval (x # xs) = max_key_loop key maxitem maxval xs"
      using False kx by simp
    from Cons.IH [OF rest, of maxitem maxval] obtain res where
      res: "max_key_loop key maxitem maxval xs = Inr res"
      and keep: "(\<forall>y \<in> set xs. f y \<le> maxval) \<longrightarrow> res = maxitem"
      and later: "(\<exists>y \<in> set xs. maxval < f y) \<longrightarrow> (\<exists>pre post. ?best xs maxval res pre post)"
      by blast
    have first: "(\<forall>y \<in> set (x # xs). f y \<le> maxval) \<longrightarrow> res = maxitem"
      using keep by simp
    have second: "\<exists>pre post. ?best (x # xs) maxval res pre post"
      if "\<exists>y \<in> set (x # xs). maxval < f y"
    proof -
      from that skip have "\<exists>y \<in> set xs. maxval < f y" by auto
      with later obtain pre post where b: "?best xs maxval res pre post" by blast
      with skip have "?best (x # xs) maxval res (x # pre) post" by auto
      then show ?thesis by blast
    qed
    show ?thesis
      unfolding step res using first second by (intro exI [of _ res]) blast
  qed
qed

lemma max_key_default_result:
  assumes "\<forall>x \<in> set xs. key x = Inr (f x)" and "xs \<noteq> []"
  shows "\<exists>b pre post. max_key_default key xs = Inr (Some b) \<and> xs = pre @ b # post \<and>
     (\<forall>x \<in> set pre. f x < f b) \<and> (\<forall>x \<in> set post. f x \<le> f b)"
proof -
  from assms(2) obtain x rest where xs: "xs = x # rest" by (cases xs) auto
  from assms(1) have kx: "key x = Inr (f x)" and rest: "\<forall>y \<in> set rest. key y = Inr (f y)"
    by (simp_all add: xs)
  from max_key_loop_result [OF rest, of x "f x"] obtain res where
    res: "max_key_loop key x (f x) rest = Inr res"
    and keep: "(\<forall>y \<in> set rest. f y \<le> f x) \<longrightarrow> res = x"
    and later: "(\<exists>y \<in> set rest. f x < f y) \<longrightarrow>
      (\<exists>pre post. rest = pre @ res # post \<and> f x < f res \<and>
         (\<forall>y \<in> set pre. f y < f res) \<and> (\<forall>y \<in> set post. f y \<le> f res))"
    by blast
  have val: "max_key_default key xs = Inr (Some res)"
    by (simp add: xs kx res)
  show ?thesis
  proof (cases "\<forall>y \<in> set rest. f y \<le> f x")
    case True
    with keep have "res = x" by simp
    with True have "xs = [] @ res # rest \<and> (\<forall>y \<in> set []. f y < f res) \<and>
        (\<forall>y \<in> set rest. f y \<le> f res)"
      by (simp add: xs)
    with val show ?thesis by blast
  next
    case False
    then have "\<exists>y \<in> set rest. f x < f y" by (auto simp: not_le)
    with later obtain pre post where "rest = pre @ res # post" "f x < f res"
        "\<forall>y \<in> set pre. f y < f res" "\<forall>y \<in> set post. f y \<le> f res"
      by blast
    then have "xs = (x # pre) @ res # post \<and> (\<forall>y \<in> set (x # pre). f y < f res) \<and>
        (\<forall>y \<in> set post. f y \<le> f res)"
      by (simp add: xs)
    with val show ?thesis by blast
  qed
qed

lemma no_calls_no_movies:
  "get_user_movies s user = [] \<Longrightarrow> \<forall>(u, m, r) \<in> set calls. user_id u \<noteq> user_id user \<Longrightarrow>
    get_user_movies (add_ratings calls s) user = []"
proof (induction calls arbitrary: s)
  case Nil
  then show ?case by simp
next
  case (Cons c calls)
  obtain u m r where c: "c = (u, m, r)" by (cases c)
  from Cons.prems have "get_user_movies (add_rating u m r s) user = []"
    by (simp add: c get_user_movies_add_rating)
  with Cons.prems show ?case
    by (simp add: c Cons.IH)
qed

text \<open>
  Claim C4. In a store built from the empty one by \<^verbatim>\<open>add_rating\<close> calls, for a user whose
  movie sequence is empty \<^verbatim>\<open>recommend_movie\<close> takes the cold-start branch: with an empty
  catalog it returns \<^verbatim>\<open>None\<close>; otherwise it returns the movie \<open>b\<close> of the catalog such that
  every movie added before it has a strictly lower average and every movie added after it
  has an average that is not higher. A user that no call was about has an empty movie
  sequence.
\<close>

theorem cold_start_first_best:
  "(get_user_movies (add_ratings calls RatingRegister_init) user = [] \<longrightarrow>
      (\<forall>m. get_average_rating (add_ratings calls RatingRegister_init) m =
             Inr (average (add_ratings calls RatingRegister_init) m)) \<and>
      (get_movies (add_ratings calls RatingRegister_init) = [] \<longrightarrow>
         recommend_movie (add_ratings calls RatingRegister_init) user = Inr PyNone) \<and>
      (get_movies (add_ratings calls RatingRegister_init) \<noteq> [] \<longrightarrow>
         (\<exists>b pre post.
            recommend_movie (add_ratings calls RatingRegister_init) user = Inr (PyMovie b) \<and>
            get_movies (add_ratings calls RatingRegister_init) = pre @ b # post \<and>
            (\<forall>m \<in> set pre. average (add_ratings calls RatingRegister_init) m
                 < average (add_ratings calls RatingRegister_init) b) \<and>
            (\<forall>m \<in> set post. average (add_ratings calls RatingRegister_init) m
                 \<le> average (add_ratings calls RatingRegister_init) b)))) \<and>
   ((\<forall>(u, m, r) \<in> set calls. user_id u \<noteq> user_id user) \<longrightarrow>
      get_user_movies (add_ratings calls RatingRegister_init) user = [])"
proof -
  define s where "s = add_ratings calls RatingRegister_init"
  have "ratings_nonempty s"
    unfolding s_def by (rule ratings_nonempty_add_ratings [OF ratings_nonempty_init])
  then have avg: "get_average_rating s m = Inr (average s m)" for m
    using average_defined [of s m] by (auto simp: average_def)
  have empty: "recommend_movie s user = Inr PyNone"
    if "get_user_movies s user = []" "get_movies s = []"
    using that by (simp add: recommend_movie_def recommend_for_new_user_def)
  have nonempty: "\<exists>b pre post. recommend_movie s user = Inr (PyMovie b) \<and>
      get_movies s = pre @ b # post \<and>
      (\<forall>m \<in> set pre. average s m < average s b) \<and>
      (\<forall>m \<in> set post. average s m \<le> average s b)"
    if new: "get_user_movies s user = []" and some: "get_movies s \<noteq> []"
  proof -
    from avg have "\<forall>m \<in> set (get_movies s). get_average_rating s m = Inr (average s m)"
      by simp
    from max_key_default_result [OF this some] obtain b pre post where
      best: "max_key_default (get_average_rating s) (get_movies s) = Inr (Some b)"
      and split: "get_movies s = pre @ b # post"
        "\<forall>m \<in> set pre. average s m < average s b"
        "\<forall>m \<in> set post. average s m \<le> average s b"
      by blast
    from new best have "recommend_movie s user = Inr (PyMovie b)"
      by (simp add: recommend_movie_def recommend_for_new_user_def)
    with split show ?thesis by blast
  qed
  have unknown: "get_user_movies s user = []"
    if "\<forall>(u, m, r) \<in> set calls. user_id u \<noteq> user_id user"
    unfolding s_def using that
    by (intro no_calls_no_movies) (simp_all add: get_user_movies_def RatingRegister_init_def)
  show ?thesis
    unfolding s_def [symmetric] using avg empty nonempty unknown by blast
qed

theorem cold_start_first_best_witness:
  "\<exists>b pre post. recommend_movie demo_ratings charlie = Inr (PyMovie b) \<and>
     get_movies demo_ratings = pre @ b # post \<and>
     (\<forall>m \<in> set pre. average demo_ratings m < average demo_ratings b) \<and>
     (\<forall>m \<in> set post. average demo_ratings m \<le> average demo_ratings b)"
proof -
  have new: "get_user_movies (add_ratings demo_calls RatingRegister_init) charlie = []"
    by code_simp
  have catalog: "get_movies (add_ratings demo_calls RatingRegister_init) \<noteq> []"
    by code_simp
  show ?thesis
    using cold_start_first_best [of demo_calls charlie] new catalog
    unfolding demo_ratings_def by blast
qed

end
